theory Spec2Isabelle
  imports Main "HOL-Library.Sublist"
begin

section \<open>Data model\<close>

text \<open>
  A Go \<open>string\<close> is a sequence of bytes; it is modelled as \<open>string\<close> (a list of
  8-bit \<open>char\<close>). A \<open>rune\<close> is an \<open>int32\<close>; it is modelled as \<open>int\<close>, and the one
  place where the source truncates a rune (\<open>byte(w.Comma)\<close>) is written out as
  \<open>mod 256\<close> through \<open>char_of\<close>.
\<close>

type_synonym rune = int

abbreviation DQUOTE :: char where "DQUOTE \<equiv> CHR 0x22"
abbreviation CR :: char where "CR \<equiv> CHR 0x0D"
abbreviation LF :: char where "LF \<equiv> CHR 0x0A"
abbreviation TAB :: char where "TAB \<equiv> CHR 0x09"

record SafetyOpts =
  ForceDoubleQuotes :: bool
  EscapeCharEqual :: bool
  EscapeCharPlus :: bool
  EscapeCharMinus :: bool
  EscapeCharAt :: bool
  EscapeCharTab :: bool
  EscapeCharCR :: bool

definition FullSafety :: SafetyOpts where
  "FullSafety = \<lparr>ForceDoubleQuotes = True, EscapeCharEqual = True, EscapeCharPlus = True,
     EscapeCharMinus = True, EscapeCharAt = True, EscapeCharTab = True, EscapeCharCR = True\<rparr>"

definition EscapeAll :: SafetyOpts where
  "EscapeAll = \<lparr>ForceDoubleQuotes = False, EscapeCharEqual = True, EscapeCharPlus = True,
     EscapeCharMinus = True, EscapeCharAt = True, EscapeCharTab = True, EscapeCharCR = True\<rparr>"

text \<open>
  The errors a write can return: the package's own \<open>errInvalidDelim\<close>, and the two
  errors that come out of the buffered writer (\<open>io.ErrShortWrite\<close>, and the error
  of the underlying \<open>io.Writer\<close>).
\<close>

datatype error = errInvalidDelim | ErrShortWrite | errSink

section \<open>Go standard library: \<open>unicode/utf8\<close>, \<open>unicode\<close>, \<open>strings\<close>\<close>

definition RuneError :: rune where "RuneError = 0xFFFD"
definition RuneSelf :: rune where "RuneSelf = 0x80"
definition MaxRune :: rune where "MaxRune = 0x10FFFF"
definition UTFMax :: nat where "UTFMax = 4"

text \<open>\<open>utf8.ValidRune\<close>: in range and not a surrogate half.\<close>

definition ValidRune :: "rune \<Rightarrow> bool" where
  "ValidRune r = ((0 \<le> r \<and> r < 0xD800) \<or> (0xDFFF < r \<and> r \<le> MaxRune))"

text \<open>The two-, three- and four-byte encoders.\<close>

definition enc2 :: "rune \<Rightarrow> string" where
  "enc2 r = [char_of (0xC0 + r div 64), char_of (0x80 + r mod 64)]"

definition enc3 :: "rune \<Rightarrow> string" where
  "enc3 r = [char_of (0xE0 + r div 4096), char_of (0x80 + (r div 64) mod 64),
             char_of (0x80 + r mod 64)]"

definition enc4 :: "rune \<Rightarrow> string" where
  "enc4 r = [char_of (0xF0 + r div 262144), char_of (0x80 + (r div 4096) mod 64),
             char_of (0x80 + (r div 64) mod 64), char_of (0x80 + r mod 64)]"

text \<open>
  \<open>utf8.EncodeRune\<close> (and the conversion \<open>string(r)\<close>): the switch is on
  \<open>uint32(r)\<close>, so a negative rune is out of range and is encoded as \<open>RuneError\<close>,
  like a surrogate half.
\<close>

definition EncodeRune :: "rune \<Rightarrow> string" where
  "EncodeRune r =
     (if 0 \<le> r \<and> r \<le> 0x7F then [char_of r]
      else if 0 \<le> r \<and> r \<le> 0x7FF then enc2 r
      else if r < 0 \<or> MaxRune < r \<or> (0xD800 \<le> r \<and> r \<le> 0xDFFF) then enc3 RuneError
      else if r \<le> 0xFFFF then enc3 r
      else enc4 r)"

text \<open>
  \<open>utf8.DecodeRuneInString\<close>: the first code point of the string and its width in
  bytes; \<open>(RuneError, 0)\<close> on the empty string and \<open>(RuneError, 1)\<close> on an encoding
  that is invalid, too short, overlong, a surrogate half or out of range. The bounds on
  the second byte are those of the table \<open>acceptRanges\<close>.
\<close>

definition lo2 :: "nat \<Rightarrow> nat" where
  "lo2 s0 = (if s0 = 0xE0 then 0xA0 else if s0 = 0xF0 then 0x90 else 0x80)"

definition hi2 :: "nat \<Rightarrow> nat" where
  "hi2 s0 = (if s0 = 0xED then 0x9F else if s0 = 0xF4 then 0x8F else 0xBF)"

definition seqlen :: "nat \<Rightarrow> nat" where
  "seqlen s0 = (if s0 < 0x80 then 1 else if s0 < 0xC2 then 0 else if s0 < 0xE0 then 2
                else if s0 < 0xF0 then 3 else if s0 < 0xF5 then 4 else 0)"

fun DecodeRuneInString :: "string \<Rightarrow> rune \<times> nat" where
  "DecodeRuneInString [] = (RuneError, 0)"
| "DecodeRuneInString (c0 # cs) =
     (let s0 = (of_char c0 :: nat); sz = seqlen s0 in
      if sz = 1 then (int s0, 1)
      else if sz = 0 then (RuneError, 1)
      else if length (c0 # cs) < sz then (RuneError, 1)
      else
        let s1 = (of_char (cs ! 0) :: nat) in
        if s1 < lo2 s0 \<or> hi2 s0 < s1 then (RuneError, 1)
        else if sz \<le> 2 then (int ((s0 mod 32) * 64 + s1 mod 64), 2)
        else
          let s2 = (of_char (cs ! 1) :: nat) in
          if s2 < 0x80 \<or> 0xBF < s2 then (RuneError, 1)
          else if sz \<le> 3 then (int ((s0 mod 16) * 4096 + (s1 mod 64) * 64 + s2 mod 64), 3)
          else
            let s3 = (of_char (cs ! 2) :: nat) in
            if s3 < 0x80 \<or> 0xBF < s3 then (RuneError, 1)
            else (int ((s0 mod 8) * 262144 + (s1 mod 64) * 4096 + (s2 mod 64) * 64
                       + s3 mod 64), 4))"

text \<open>
  \<open>unicode.IsSpace\<close>: the Latin-1 switch, then the table \<open>White_Space\<close> for the
  code points above \<open>MaxLatin1\<close>. The first test is on \<open>uint32(r)\<close>, so a negative
  rune goes to the table, where it is not found.
\<close>

definition IsSpace :: "rune \<Rightarrow> bool" where
  "IsSpace r =
     (if 0 \<le> r \<and> r \<le> 0xFF then
        r = 0x09 \<or> r = 0x0A \<or> r = 0x0B \<or> r = 0x0C \<or> r = 0x0D \<or> r = 0x20
        \<or> r = 0x85 \<or> r = 0xA0
      else
        r = 0x1680 \<or> (0x2000 \<le> r \<and> r \<le> 0x200A) \<or> r = 0x2028 \<or> r = 0x2029
        \<or> r = 0x202F \<or> r = 0x205F \<or> r = 0x3000)"



text \<open>
  \<open>strings.IndexByte\<close>, \<open>strings.Index\<close> and \<open>strings.IndexAny\<close> return the
  position of the first match, or \<open>-1\<close>. \<open>IndexAny\<close> is only called here with the
  ASCII set \<open>"\"\r\n"\<close>, for which the match is on bytes.
\<close>

fun IndexFrom :: "(string \<Rightarrow> bool) \<Rightarrow> string \<Rightarrow> nat \<Rightarrow> int" where
  "IndexFrom P [] i = (if P [] then int i else -1)"
| "IndexFrom P (c # cs) i = (if P (c # cs) then int i else IndexFrom P cs (Suc i))"

definition IndexByte :: "string \<Rightarrow> char \<Rightarrow> int" where
  "IndexByte s c = IndexFrom (\<lambda>t. t \<noteq> [] \<and> hd t = c) s 0"

definition Index :: "string \<Rightarrow> string \<Rightarrow> int" where
  "Index s sub = IndexFrom (prefix sub) s 0"

definition IndexAny :: "string \<Rightarrow> string \<Rightarrow> int" where
  "IndexAny s chars = IndexFrom (\<lambda>t. t \<noteq> [] \<and> hd t \<in> set chars) s 0"

definition ContainsAny :: "string \<Rightarrow> string \<Rightarrow> bool" where
  "ContainsAny s chars = (IndexAny s chars \<ge> 0)"

text \<open>
  \<open>strings.IndexRune\<close>: a byte search for an ASCII rune, the first invalid or
  replacement code point met by \<open>range\<close> for \<open>RuneError\<close>, nothing for any other
  invalid rune, and a search for the encoding otherwise.
\<close>

fun IndexRuneError :: "string \<Rightarrow> nat \<Rightarrow> int" where
  "IndexRuneError [] i = -1"
| "IndexRuneError (c # cs) i =
     (if fst (DecodeRuneInString (c # cs)) = RuneError then int i
      else IndexRuneError (drop (snd (DecodeRuneInString (c # cs)) - 1) cs)
             (i + snd (DecodeRuneInString (c # cs))))"

declare IndexRuneError.simps(2) [simp del]

definition IndexRune :: "string \<Rightarrow> rune \<Rightarrow> int" where
  "IndexRune s r =
     (if 0 \<le> r \<and> r < RuneSelf then IndexByte s (char_of r)
      else if r = RuneError then IndexRuneError s 0
      else if \<not> ValidRune r then -1
      else Index s (EncodeRune r))"

definition ContainsRune :: "string \<Rightarrow> rune \<Rightarrow> bool" where
  "ContainsRune s r = (IndexRune s r \<ge> 0)"

section \<open>The underlying \<open>io.Writer\<close> and \<open>bufio.Writer\<close>\<close>

text \<open>
  The writer hands its bytes to a \<open>bufio.Writer\<close> over the caller's \<open>io.Writer\<close>.
  The caller's writer is modelled as a sink that keeps what it was given (\<open>sunk\<close>)
  and accepts \<open>room\<close> more bytes (\<open>None\<close>: any number) before its \<open>Write\<close> stops
  short with an error; \<open>stringWriter\<close> tells whether it also implements
  \<open>io.StringWriter\<close>, as \<open>strings.Builder\<close> does.
\<close>

record sink =
  sunk :: string
  room :: "nat option"
  stringWriter :: bool

definition sink_Write :: "sink \<Rightarrow> string \<Rightarrow> nat \<times> error option \<times> sink" where
  "sink_Write s p =
     (case room s of
        None \<Rightarrow> (length p, None, s\<lparr>sunk := sunk s @ p\<rparr>)
      | Some k \<Rightarrow>
          if length p \<le> k then (length p, None, s\<lparr>sunk := sunk s @ p, room := Some (k - length p)\<rparr>)
          else (k, Some errSink, s\<lparr>sunk := sunk s @ take k p, room := Some 0\<rparr>))"

text \<open>
  \<open>bufio.Writer\<close>: \<open>buf\<close> holds the buffered bytes \<open>b.buf[0:b.n]\<close>, \<open>err\<close> is the
  sticky \<open>b.err\<close>, \<open>wr\<close> the underlying writer. \<open>NewSafeWriter\<close> builds it with
  \<open>bufio.NewWriter\<close>, whose buffer has \<open>defaultBufSize\<close> bytes.
\<close>

record bufio_Writer =
  buf :: string
  err :: "error option"
  wr :: sink

definition defaultBufSize :: nat where "defaultBufSize = 4096"

definition Available :: "bufio_Writer \<Rightarrow> nat" where
  "Available b = defaultBufSize - length (buf b)"

definition Buffered :: "bufio_Writer \<Rightarrow> nat" where
  "Buffered b = length (buf b)"

definition bufio_Flush :: "bufio_Writer \<Rightarrow> error option \<times> bufio_Writer" where
  "bufio_Flush b =
     (if err b \<noteq> None then (err b, b)
      else if length (buf b) = 0 then (None, b)
      else
        case sink_Write (wr b) (buf b) of (n, e0, s') \<Rightarrow>
          let e = (if n < length (buf b) \<and> e0 = None then Some ErrShortWrite else e0) in
          if e \<noteq> None then (e, b\<lparr>buf := drop n (buf b), err := e, wr := s'\<rparr>)
          else (None, b\<lparr>buf := [], wr := s'\<rparr>))"

definition bufio_WriteByte :: "bufio_Writer \<Rightarrow> char \<Rightarrow> error option \<times> bufio_Writer" where
  "bufio_WriteByte b c =
     (if err b \<noteq> None then (err b, b)
      else if Available b \<le> 0 \<and> fst (bufio_Flush b) \<noteq> None
        then (err (snd (bufio_Flush b)), snd (bufio_Flush b))
      else if Available b \<le> 0
        then (None, (snd (bufio_Flush b))\<lparr>buf := buf (snd (bufio_Flush b)) @ [c]\<rparr>)
      else (None, b\<lparr>buf := buf b @ [c]\<rparr>))"

text \<open>
  The loops of \<open>Write\<close> and \<open>WriteString\<close>: while the data does not fit, either
  pass it straight to the underlying writer (empty buffer), or fill the buffer and flush.
  The result is the number of bytes taken, the error, and the writer.
\<close>

function bufio_Write :: "bufio_Writer \<Rightarrow> string \<Rightarrow> nat \<times> error option \<times> bufio_Writer" where
  "bufio_Write b p =
     (if length p > Available b \<and> err b = None then
        (if Buffered b = 0 then
           (case sink_Write (wr b) p of (n, e, s') \<Rightarrow>
              (case bufio_Write (b\<lparr>err := e, wr := s'\<rparr>) (drop n p) of
                 (nn, e', b') \<Rightarrow> (n + nn, e', b')))
         else
           (case bufio_Write (snd (bufio_Flush (b\<lparr>buf := buf b @ take (Available b) p\<rparr>)))
                   (drop (min (length p) (Available b)) p) of
              (nn, e', b') \<Rightarrow> (min (length p) (Available b) + nn, e', b')))
      else if err b \<noteq> None then (0, err b, b)
      else (length p, None, b\<lparr>buf := buf b @ p\<rparr>))"
  by pat_completeness auto

termination bufio_Write
  apply (relation "measure (\<lambda>(b, p). if err b \<noteq> None then 0
            else 2 * length p + (if Available b = 0 then 1 else 0) + 1)")
    apply simp
   apply (auto simp: sink_Write_def Available_def Buffered_def defaultBufSize_def
               split: option.splits if_splits)[1]
  apply (auto simp: bufio_Flush_def sink_Write_def Available_def Buffered_def
              defaultBufSize_def Let_def split: option.splits if_splits prod.splits)
  done

declare bufio_Write.simps [simp del]

text \<open>
  \<open>WriteString\<close> takes the direct path only when the underlying writer is an
  \<open>io.StringWriter\<close>.
\<close>

function bufio_WriteString :: "bufio_Writer \<Rightarrow> string \<Rightarrow> nat \<times> error option \<times> bufio_Writer" where
  "bufio_WriteString b s =
     (if length s > Available b \<and> err b = None then
        (if Buffered b = 0 \<and> stringWriter (wr b) then
           (case sink_Write (wr b) s of (n, e, s') \<Rightarrow>
              (case bufio_WriteString (b\<lparr>err := e, wr := s'\<rparr>) (drop n s) of
                 (nn, e', b') \<Rightarrow> (n + nn, e', b')))
         else
           (case bufio_WriteString (snd (bufio_Flush (b\<lparr>buf := buf b @ take (Available b) s\<rparr>)))
                   (drop (min (length s) (Available b)) s) of
              (nn, e', b') \<Rightarrow> (min (length s) (Available b) + nn, e', b')))
      else if err b \<noteq> None then (0, err b, b)
      else (length s, None, b\<lparr>buf := buf b @ s\<rparr>))"
  by pat_completeness auto
termination
  apply (relation "measure (\<lambda>(b, p). if err b \<noteq> None then 0
            else 2 * length p + (if Available b = 0 then 1 else 0) + 1)")
    apply simp
  subgoal
    by (auto simp: sink_Write_def Available_def Buffered_def defaultBufSize_def
             split: option.splits if_splits)
  subgoal for b s
    apply (cases "Available b = 0")
     apply (simp_all add: bufio_Flush_def sink_Write_def Available_def
              defaultBufSize_def Let_def split: option.splits)
    apply (intro conjI impI allI; arith)
    done
  done

declare bufio_WriteString.simps [simp del]

text \<open>
  \<open>WriteRune\<close> compares \<open>uint32(r)\<close> with \<open>RuneSelf\<close>; the result is the number
  of bytes written, the error, and the writer.
\<close>

definition bufio_WriteRune :: "bufio_Writer \<Rightarrow> rune \<Rightarrow> nat \<times> error option \<times> bufio_Writer" where
  "bufio_WriteRune b r =
     (if 0 \<le> r \<and> r < RuneSelf then
        (case bufio_WriteByte b (char_of r) of
           (Some e, b') \<Rightarrow> (0, Some e, b')
         | (None, b') \<Rightarrow> (1, None, b'))
      else if err b \<noteq> None then (0, err b, b)
      else if Available b < UTFMax then
        (let b1 = snd (bufio_Flush b) in
         if err b1 \<noteq> None then (0, err b1, b1)
         else if Available b1 < UTFMax then bufio_WriteString b1 (EncodeRune r)
         else (length (EncodeRune r), None, b1\<lparr>buf := buf b1 @ EncodeRune r\<rparr>))
      else (length (EncodeRune r), None, b\<lparr>buf := buf b @ EncodeRune r\<rparr>))"

section \<open>The safe writer\<close>

text \<open>
  \<open>SafeWriter\<close>: the delimiter, the line-terminator mode, the buffered writer (the
  field \<open>w\<close> of the source, here \<open>sw_w\<close>) and the safety options.
\<close>

record SafeWriter =
  Comma :: rune
  UseCRLF :: bool
  sw_w :: bufio_Writer
  opts :: SafetyOpts

definition NewSafeWriter :: "sink \<Rightarrow> SafetyOpts \<Rightarrow> SafeWriter" where
  "NewSafeWriter snk os =
     \<lparr>Comma = 0x2C, UseCRLF = False, sw_w = \<lparr>buf = [], err = None, wr = snk\<rparr>, opts = os\<rparr>"

definition validDelim :: "rune \<Rightarrow> bool" where
  "validDelim r = (r \<noteq> 0 \<and> r \<noteq> 0x22 \<and> r \<noteq> 0x0D \<and> r \<noteq> 0x0A \<and> ValidRune r \<and> r \<noteq> RuneError)"

text \<open>
  \<open>fieldNeedsQuotes\<close>. The byte loop of the ASCII branch stops at the first byte that
  is a line feed, a carriage return, a quote or \<open>byte(w.Comma)\<close>.
\<close>

definition fieldNeedsQuotes :: "SafeWriter \<Rightarrow> string \<Rightarrow> bool" where
  "fieldNeedsQuotes sw field =
     (if field = [] then False
      else if field = [CHR 0x5C, CHR ''.''] then True
      else if ForceDoubleQuotes (opts sw) then True
      else if (if Comma sw < RuneSelf
               then list_ex (\<lambda>c. c = LF \<or> c = CR \<or> c = DQUOTE \<or> c = char_of (Comma sw)) field
               else ContainsRune field (Comma sw) \<or> ContainsAny field [DQUOTE, CR, LF])
        then True
      else IsSpace (fst (DecodeRuneInString field)))"

text \<open>
  The sanitizing switch at the head of the loop body of \<open>Write\<close>: the first case
  whose option is set and whose character is the first byte of the field applies.
\<close>

definition sanitize :: "SafetyOpts \<Rightarrow> string \<Rightarrow> string" where
  "sanitize os field =
     (if length field > 0 then
        (if EscapeCharEqual os \<and> field ! 0 = CHR ''='' then '' '' @ field
         else if EscapeCharPlus os \<and> field ! 0 = CHR ''+'' then '' '' @ field
         else if EscapeCharMinus os \<and> field ! 0 = CHR ''-'' then '' '' @ field
         else if EscapeCharAt os \<and> field ! 0 = CHR ''@'' then '' '' @ field
         else if EscapeCharTab os \<and> field ! 0 = TAB then '' '' @ field
         else if EscapeCharCR os \<and> field ! 0 = LF then '' '' @ field
         else field)
      else field)"

text \<open>The calls \<open>w.w.WriteString\<close>, \<open>w.w.WriteByte\<close> and \<open>w.w.WriteRune\<close>.\<close>

definition wWriteString :: "SafeWriter \<Rightarrow> string \<Rightarrow> error option \<times> SafeWriter" where
  "wWriteString sw s = (case bufio_WriteString (sw_w sw) s of (n, e, b) \<Rightarrow> (e, sw\<lparr>sw_w := b\<rparr>))"

definition wWriteByte :: "SafeWriter \<Rightarrow> char \<Rightarrow> error option \<times> SafeWriter" where
  "wWriteByte sw c = (case bufio_WriteByte (sw_w sw) c of (e, b) \<Rightarrow> (e, sw\<lparr>sw_w := b\<rparr>))"

definition wWriteRune :: "SafeWriter \<Rightarrow> rune \<Rightarrow> error option \<times> SafeWriter" where
  "wWriteRune sw r = (case bufio_WriteRune (sw_w sw) r of (n, e, b) \<Rightarrow> (e, sw\<lparr>sw_w := b\<rparr>))"

text \<open>
  The special character at the head of the rest of a quoted field (the inner
  \<open>switch field[0]\<close>).
\<close>

definition writeSpecial :: "SafeWriter \<Rightarrow> char \<Rightarrow> error option \<times> SafeWriter" where
  "writeSpecial sw c =
     (if c = DQUOTE then wWriteString sw [DQUOTE, DQUOTE]
      else if c = CR then (if \<not> UseCRLF sw then wWriteByte sw CR else (None, sw))
      else if c = LF then (if UseCRLF sw then wWriteString sw [CR, LF] else wWriteByte sw LF)
      else (None, sw))"

text \<open>The loop \<open>for len(field) > 0\<close> that writes the content of a quoted field.\<close>

function writeQuoted :: "SafeWriter \<Rightarrow> string \<Rightarrow> error option \<times> SafeWriter" where
  "writeQuoted sw field =
     (if length field > 0 then
        (let i0 = IndexAny field [DQUOTE, CR, LF];
             i = (if i0 < 0 then length field else nat i0) in
         case wWriteString sw (take i field) of
           (Some e, sw1) \<Rightarrow> (Some e, sw1)
         | (None, sw1) \<Rightarrow>
             if length (drop i field) > 0 then
               (case writeSpecial sw1 (drop i field ! 0) of
                  (Some e, sw2) \<Rightarrow> (Some e, sw2)
                | (None, sw2) \<Rightarrow> writeQuoted sw2 (drop 1 (drop i field)))
             else writeQuoted sw1 (drop i field))
      else (None, sw))"
  by pat_completeness auto
termination
  by (relation "measure (\<lambda>(sw, field). length field)") auto

declare writeQuoted.simps [simp del]

text \<open>The body of the loop over the fields of a record, for the field of index \<open>n\<close>.\<close>

definition writeField :: "SafeWriter \<Rightarrow> nat \<Rightarrow> string \<Rightarrow> error option \<times> SafeWriter" where
  "writeField sw n field0 =
     (case (if n > 0 then wWriteRune sw (Comma sw) else (None, sw)) of
        (Some e, sw1) \<Rightarrow> (Some e, sw1)
      | (None, sw1) \<Rightarrow>
          let field = sanitize (opts sw1) field0 in
          if \<not> fieldNeedsQuotes sw1 field then wWriteString sw1 field
          else
            (case wWriteByte sw1 DQUOTE of
               (Some e, sw2) \<Rightarrow> (Some e, sw2)
             | (None, sw2) \<Rightarrow>
                 (case writeQuoted sw2 field of
                    (Some e, sw3) \<Rightarrow> (Some e, sw3)
                  | (None, sw3) \<Rightarrow> wWriteByte sw3 DQUOTE)))"

fun writeFields :: "SafeWriter \<Rightarrow> nat \<Rightarrow> string list \<Rightarrow> error option \<times> SafeWriter" where
  "writeFields sw n [] = (None, sw)"
| "writeFields sw n (field # rest) =
     (case writeField sw n field of
        (Some e, sw1) \<Rightarrow> (Some e, sw1)
      | (None, sw1) \<Rightarrow> writeFields sw1 (Suc n) rest)"

definition Write :: "SafeWriter \<Rightarrow> string list \<Rightarrow> error option \<times> SafeWriter" where
  "Write sw record =
     (if \<not> validDelim (Comma sw) then (Some errInvalidDelim, sw)
      else
        (case writeFields sw 0 record of
           (Some e, sw1) \<Rightarrow> (Some e, sw1)
         | (None, sw1) \<Rightarrow>
             if UseCRLF sw1 then wWriteString sw1 [CR, LF] else wWriteByte sw1 LF))"

definition Flush :: "SafeWriter \<Rightarrow> SafeWriter" where
  "Flush sw = sw\<lparr>sw_w := snd (bufio_Flush (sw_w sw))\<rparr>"

text \<open>\<open>Error\<close> is \<open>w.w.Write(nil)\<close>, of which only the error is kept.\<close>

definition Error :: "SafeWriter \<Rightarrow> error option \<times> SafeWriter" where
  "Error sw = (case bufio_Write (sw_w sw) [] of (n, e, b) \<Rightarrow> (e, sw\<lparr>sw_w := b\<rparr>))"

fun WriteAll :: "SafeWriter \<Rightarrow> string list list \<Rightarrow> error option \<times> SafeWriter" where
  "WriteAll sw [] = (case bufio_Flush (sw_w sw) of (e, b) \<Rightarrow> (e, sw\<lparr>sw_w := b\<rparr>))"
| "WriteAll sw (record # records) =
     (case Write sw record of
        (Some e, sw1) \<Rightarrow> (Some e, sw1)
      | (None, sw1) \<Rightarrow> WriteAll sw1 records)"

section \<open>What a write leaves behind\<close>

text \<open>
  The bytes a buffered writer has taken so far, in order: those already handed to the
  underlying writer, then those still in the buffer. A successful \<open>Flush\<close> moves the
  second part to the first.
\<close>

definition emitted :: "bufio_Writer \<Rightarrow> string" where
  "emitted b = sunk (wr b) @ buf b"

text \<open>
  The outcome \<open>post b s r b'\<close> of an operation that was asked to write \<open>s\<close> on \<open>b\<close>,
  returned \<open>r\<close> and left \<open>b'\<close>: an error returned is the sticky error afterwards;
  without an error there was none before either and exactly \<open>s\<close> was taken; and a sink
  with unbounded room never makes an operation fail.
\<close>

definition post :: "bufio_Writer \<Rightarrow> string \<Rightarrow> error option \<Rightarrow> bufio_Writer \<Rightarrow> bool" where
  "post b s r b' =
     ((\<forall>e. r = Some e \<longrightarrow> err b' = Some e) \<and>
      (r = None \<longrightarrow> err b = None \<and> err b' = None \<and> emitted b' = emitted b @ s) \<and>
      stringWriter (wr b') = stringWriter (wr b) \<and>
      (room (wr b) = None \<longrightarrow> room (wr b') = None \<and> (err b = None \<longrightarrow> r = None)))"

text \<open>
  The same for the safe writer: \<open>written\<close> is what its buffered writer has taken.
  The outcome \<open>wpost sw s r sw'\<close> of a step of \<open>Write\<close> also covers the steps that
  write nothing (they leave the sticky error as it is), and says that the configuration
  is left alone.
\<close>

definition written :: "SafeWriter \<Rightarrow> string" where
  "written sw = emitted (sw_w sw)"

definition wpost :: "SafeWriter \<Rightarrow> string \<Rightarrow> error option \<Rightarrow> SafeWriter \<Rightarrow> bool" where
  "wpost sw s r sw' =
     ((\<forall>e. r = Some e \<longrightarrow> err (sw_w sw') = Some e) \<and>
      (r = None \<longrightarrow> err (sw_w sw') = err (sw_w sw) \<and> written sw' = written sw @ s) \<and>
      (room (wr (sw_w sw)) = None \<longrightarrow>
         room (wr (sw_w sw')) = None \<and> (err (sw_w sw) = None \<longrightarrow> r = None)) \<and>
      Comma sw' = Comma sw \<and> UseCRLF sw' = UseCRLF sw \<and> opts sw' = opts sw)"

text \<open>
  The bytes a record is expected to produce, stated on the field itself: a special byte
  of a quoted field becomes \<open>escapeByte\<close> of it, a quoted field is wrapped in quotes,
  the fields of a record are separated by the encoding of the delimiter, and the record
  ends with \<open>lineEnd\<close>.
\<close>

definition plain :: "char \<Rightarrow> bool" where
  "plain c = (c \<noteq> DQUOTE \<and> c \<noteq> CR \<and> c \<noteq> LF)"

definition escapeByte :: "bool \<Rightarrow> char \<Rightarrow> string" where
  "escapeByte crlf c =
     (if c = DQUOTE then [DQUOTE, DQUOTE]
      else if c = CR then (if crlf then [] else [CR])
      else if c = LF then (if crlf then [CR, LF] else [LF])
      else [c])"

definition quotedField :: "bool \<Rightarrow> string \<Rightarrow> string" where
  "quotedField crlf field = [DQUOTE] @ concat (map (escapeByte crlf) field) @ [DQUOTE]"

definition encodeField :: "SafeWriter \<Rightarrow> string \<Rightarrow> string" where
  "encodeField sw field0 =
     (let field = sanitize (opts sw) field0 in
      if fieldNeedsQuotes sw field then quotedField (UseCRLF sw) field else field)"

fun encodeFields :: "SafeWriter \<Rightarrow> nat \<Rightarrow> string list \<Rightarrow> string" where
  "encodeFields sw n [] = []"
| "encodeFields sw n (field # rest) =
     (if n > 0 then EncodeRune (Comma sw) else []) @ encodeField sw field
     @ encodeFields sw (Suc n) rest"

definition lineEnd :: "bool \<Rightarrow> string" where
  "lineEnd crlf = (if crlf then [CR, LF] else [LF])"

definition encodeRecord :: "SafeWriter \<Rightarrow> string list \<Rightarrow> string" where
  "encodeRecord sw record = encodeFields sw 0 record @ lineEnd (UseCRLF sw)"

text \<open>
  The writer after the first \<open>k\<close> records of a batch have been written in order.
\<close>

definition stateAfter :: "SafeWriter \<Rightarrow> string list list \<Rightarrow> nat \<Rightarrow> SafeWriter" where
  "stateAfter sw records k = foldl (\<lambda>s record. snd (Write s record)) sw (take k records)"


section \<open>Reading a field back\<close>





section \<open>Well-formed UTF-8 sequences and the quoting decision as stated\<close>








section \<open>Example writers\<close>

text \<open>
  An empty \<open>strings.Builder\<close> as the underlying writer, a writer that accepts nothing,
  the options \<open>SafetyOpts{}\<close>, and the options with \<open>EscapeCharEqual\<close> alone.
\<close>

definition builder :: sink where
  "builder = \<lparr>sunk = [], room = None, stringWriter = True\<rparr>"

definition fullSink :: sink where
  "fullSink = \<lparr>sunk = [], room = Some 0, stringWriter = False\<rparr>"

definition noSafety :: SafetyOpts where
  "noSafety = \<lparr>ForceDoubleQuotes = False, EscapeCharEqual = False, EscapeCharPlus = False,
     EscapeCharMinus = False, EscapeCharAt = False, EscapeCharTab = False, EscapeCharCR = False\<rparr>"

definition onlyEqual :: SafetyOpts where
  "onlyEqual = noSafety\<lparr>EscapeCharEqual := True\<rparr>"

section \<open>The buffered writer\<close>

lemma sink_Write_cases:
  "sink_Write s p = (n, e, s') \<Longrightarrow>
     sunk s' = sunk s @ take n p \<and> n \<le> length p \<and> (e = None \<longrightarrow> n = length p)
     \<and> stringWriter s' = stringWriter s \<and> (room s = None \<longrightarrow> e = None \<and> room s' = None)"
  by (auto simp: sink_Write_def split: option.splits if_splits)

lemma post_trans:
  "post b s None b1 \<Longrightarrow> post b1 t r b2 \<Longrightarrow> post b (s @ t) r b2"
  by (auto simp: post_def)

lemma post_failed: "err b = Some e \<Longrightarrow> post b s (Some e) b"
  by (simp add: post_def)

lemma bufio_Flush_post:
  "bufio_Flush b = (r, b') \<Longrightarrow> post b [] r b' \<and> (r = None \<longrightarrow> buf b' = [])"
  by (auto simp: bufio_Flush_def post_def Let_def emitted_def dest!: sink_Write_cases
           split: if_splits prod.splits)

lemma bufio_WriteByte_post:
  "bufio_WriteByte b c = (r, b') \<Longrightarrow> post b [c] r b'"
proof -
  assume a: "bufio_WriteByte b c = (r, b')"
  obtain r1 b1 where fl: "bufio_Flush b = (r1, b1)"
    by (cases "bufio_Flush b") auto
  show ?thesis
  proof (cases "err b")
    case (Some e)
    with a have "r = Some e" "b' = b" by (auto simp: bufio_WriteByte_def)
    with Some show ?thesis by (simp add: post_def)
  next
    case None
    show ?thesis
    proof (cases "Available b \<le> 0")
      case False
      with a None show ?thesis
        by (auto simp: bufio_WriteByte_def post_def emitted_def)
    next
      case True
      show ?thesis
      proof (cases r1)
        case (Some e)
        with a None True fl bufio_Flush_post[OF fl] show ?thesis
          by (auto simp: bufio_WriteByte_def post_def)
      next
        case r1: None
        with a None True fl bufio_Flush_post[OF fl] show ?thesis
          by (auto simp: bufio_WriteByte_def post_def emitted_def)
      qed
    qed
  qed
qed

lemma bufio_WriteString_post:
  "bufio_WriteString b s = (n, r, b') \<Longrightarrow> post b s r b'"
proof (induction b s arbitrary: n rule: bufio_WriteString.induct)
  case (1 b s)
  show ?case
  proof (cases "length s > Available b \<and> err b = None")
    case False
    with "1.prems" show ?thesis
      by (subst (asm) bufio_WriteString.simps) (auto simp: post_def emitted_def split: if_splits)
  next
    case fits: True
    show ?thesis
    proof (cases "Buffered b = 0 \<and> stringWriter (wr b)")
      case True
      obtain k e0 s' where sw: "sink_Write (wr b) s = (k, e0, s')"
        by (cases "sink_Write (wr b) s") auto
      obtain nn where rec: "bufio_WriteString (b\<lparr>err := e0, wr := s'\<rparr>) (drop k s) = (nn, r, b')"
        using "1.prems" fits True sw
        by (subst (asm) bufio_WriteString.simps) (auto split: prod.splits)
      from "1.IH"(1)[OF fits True sw[symmetric] refl rec]
      have ih: "post (b\<lparr>err := e0, wr := s'\<rparr>) (drop k s) r b'" .
      from sink_Write_cases[OF sw] ih True fits show ?thesis
        by (auto simp: post_def emitted_def Buffered_def)
    next
      case False
      let ?b1 = "b\<lparr>buf := buf b @ take (Available b) s\<rparr>"
      let ?k = "min (length s) (Available b)"
      obtain nn where rec: "bufio_WriteString (snd (bufio_Flush ?b1)) (drop ?k s) = (nn, r, b')"
        using "1.prems" fits False
        by (subst (asm) bufio_WriteString.simps) (auto split: prod.splits)
      from "1.IH"(2)[OF fits False rec]
      have ih: "post (snd (bufio_Flush ?b1)) (drop ?k s) r b'" .
      obtain r1 b2 where fl: "bufio_Flush ?b1 = (r1, b2)"
        by (cases "bufio_Flush ?b1") auto
      have k: "?k = Available b" using fits by auto
      have app: "take (Available b) s @ drop (Available b) s = s" by simp
      from bufio_Flush_post[OF fl] ih fl fits k show ?thesis
        apply (cases r1)
         apply (auto simp: post_def emitted_def)
        done
    qed
  qed
qed


lemma EncodeRune_ascii: "0 \<le> r \<Longrightarrow> r < RuneSelf \<Longrightarrow> EncodeRune r = [char_of r]"
  by (simp add: EncodeRune_def RuneSelf_def)

lemma bufio_WriteRune_post:
  "bufio_WriteRune b r = (n, e, b') \<Longrightarrow> post b (EncodeRune r) e b'"
proof -
  assume a: "bufio_WriteRune b r = (n, e, b')"
  show ?thesis
  proof (cases "0 \<le> r \<and> r < RuneSelf")
    case True
    obtain e1 b1 where wb: "bufio_WriteByte b (char_of r) = (e1, b1)"
      by (cases "bufio_WriteByte b (char_of r)") auto
    from a True wb have "e = e1" "b' = b1"
      by (auto simp: bufio_WriteRune_def split: option.splits)
    with bufio_WriteByte_post[OF wb] True show ?thesis
      by (simp add: EncodeRune_ascii)
  next
    case False
    show ?thesis
    proof (cases "err b")
      case (Some x)
      with a False have "e = Some x" "b' = b" by (auto simp: bufio_WriteRune_def)
      with Some show ?thesis by (simp add: post_def)
    next
      case None
      show ?thesis
      proof (cases "Available b < UTFMax")
        case nofit: False
        with a False None show ?thesis
          by (auto simp: bufio_WriteRune_def post_def emitted_def)
      next
        case True
        obtain r1 b1 where fl: "bufio_Flush b = (r1, b1)"
          by (cases "bufio_Flush b") auto
        note fp = bufio_Flush_post[OF fl]
        show ?thesis
        proof (cases "err b1")
          case (Some x)
          with a False None True fl have "e = Some x" "b' = b1"
            by (auto simp: bufio_WriteRune_def Let_def)
          with Some fp show ?thesis by (auto simp: post_def)
        next
          case b1: None
          then have r1: "r1 = None" using fp by (cases r1) (auto simp: post_def)
          show ?thesis
          proof (cases "Available b1 < UTFMax")
            case True
            with a False None \<open>Available b < UTFMax\<close> fl b1
            have "bufio_WriteString b1 (EncodeRune r) = (n, e, b')"
              by (auto simp: bufio_WriteRune_def Let_def)
            from bufio_WriteString_post[OF this] fp r1 show ?thesis
              using post_trans[of b "[]" b1 "EncodeRune r" e b'] by simp
          next
            case False
            with a \<open>\<not> (0 \<le> r \<and> r < RuneSelf)\<close> None \<open>Available b < UTFMax\<close> fl b1
            have "e = None" "b' = b1\<lparr>buf := buf b1 @ EncodeRune r\<rparr>"
              by (auto simp: bufio_WriteRune_def Let_def)
            with fp r1 b1 show ?thesis
              by (auto simp: post_def emitted_def)
          qed
        qed
      qed
    qed
  qed
qed

lemma bufio_Write_nil: "bufio_Write b [] = (0, err b, b)"
  by (subst bufio_Write.simps) (cases "err b"; simp)


section \<open>The quoted-field loop\<close>

lemma wpost_trans: "wpost sw s None sw1 \<Longrightarrow> wpost sw1 t r sw2 \<Longrightarrow> wpost sw (s @ t) r sw2"
  by (auto simp: wpost_def)

lemma wpost_refl: "wpost sw [] None sw"
  by (simp add: wpost_def)

lemma wpost_Some: "wpost sw s (Some e) sw' \<Longrightarrow> wpost sw t (Some e) sw'"
  by (auto simp: wpost_def)

lemma post_wpost:
  "post (sw_w sw) s r b' \<Longrightarrow> wpost sw s r (sw\<lparr>sw_w := b'\<rparr>)"
  by (auto simp: wpost_def post_def written_def)

lemma wWriteString_post: "wWriteString sw s = (r, sw') \<Longrightarrow> wpost sw s r sw'"
  by (auto simp: wWriteString_def split: prod.splits dest: bufio_WriteString_post post_wpost)

lemma wWriteByte_post: "wWriteByte sw c = (r, sw') \<Longrightarrow> wpost sw [c] r sw'"
  by (auto simp: wWriteByte_def split: prod.splits dest: bufio_WriteByte_post post_wpost)

lemma wWriteRune_post: "wWriteRune sw c = (r, sw') \<Longrightarrow> wpost sw (EncodeRune c) r sw'"
  by (auto simp: wWriteRune_def split: prod.splits dest: bufio_WriteRune_post post_wpost)

lemma fieldNeedsQuotes_cong:
  "Comma sw' = Comma sw \<Longrightarrow> opts sw' = opts sw \<Longrightarrow> fieldNeedsQuotes sw' f = fieldNeedsQuotes sw f"
  by (simp add: fieldNeedsQuotes_def)

lemma IndexFrom_hd:
  "IndexFrom (\<lambda>t. t \<noteq> [] \<and> hd t \<in> C) s k =
     (if \<exists>c\<in>set s. c \<in> C then int (k + length (takeWhile (\<lambda>c. c \<notin> C) s)) else -1)"
  by (induction s arbitrary: k) auto

lemma IndexAny_eq:
  "IndexAny s chars =
     (if \<exists>c\<in>set s. c \<in> set chars then int (length (takeWhile (\<lambda>c. c \<notin> set chars) s)) else -1)"
  unfolding IndexAny_def using IndexFrom_hd[of "set chars" s 0] by simp

lemma plain_set: "(\<lambda>c. c \<notin> set [DQUOTE, CR, LF]) = plain"
  by (auto simp: plain_def fun_eq_iff)

lemma escapeByte_plain: "plain c \<Longrightarrow> escapeByte crlf c = [c]"
  by (simp add: escapeByte_def plain_def)

lemma concat_escape_plain:
  "\<forall>c\<in>set s. plain c \<Longrightarrow> concat (map (escapeByte crlf) s) = s"
  by (induction s) (auto simp: escapeByte_plain)

lemma writeSpecial_post:
  "writeSpecial sw c = (r, sw') \<Longrightarrow> \<not> plain c \<Longrightarrow>
     wpost sw (escapeByte (UseCRLF sw) c) r sw'"
  by (auto simp: writeSpecial_def escapeByte_def plain_def wpost_refl split: if_splits
           dest: wWriteString_post wWriteByte_post)

lemma writeQuoted_Nil: "writeQuoted sw [] = (None, sw)"
  by (subst writeQuoted.simps) simp

lemma writeQuoted_Cons:
  assumes "field \<noteq> []"
  shows "writeQuoted sw field =
     (case wWriteString sw (takeWhile plain field) of
        (Some e, sw1) \<Rightarrow> (Some e, sw1)
      | (None, sw1) \<Rightarrow>
          (case dropWhile plain field of
             [] \<Rightarrow> (None, sw1)
           | c # rest \<Rightarrow>
               (case writeSpecial sw1 c of
                  (Some e, sw2) \<Rightarrow> (Some e, sw2)
                | (None, sw2) \<Rightarrow> writeQuoted sw2 rest)))"
proof -
  let ?ia = "IndexAny field [DQUOTE, CR, LF]"
  let ?i = "if ?ia < 0 then length field else nat ?ia"
  have ia: "?ia = (if \<exists>c\<in>set field. \<not> plain c then int (length (takeWhile plain field)) else -1)"
    unfolding IndexAny_eq plain_set by (simp add: plain_set[symmetric])
  have i: "?i = length (takeWhile plain field)"
  proof (cases "\<exists>c\<in>set field. \<not> plain c")
    case True
    then show ?thesis unfolding ia by simp
  next
    case False
    then have "takeWhile plain field = field"
      by (intro takeWhile_eq_all_conv[THEN iffD2]) auto
    then have tw: "length (takeWhile plain field) = length field" by (rule arg_cong)
    from False show ?thesis unfolding ia tw by simp
  qed
  have t: "take ?i field = takeWhile plain field"
    unfolding i by (rule takeWhile_eq_take[symmetric])
  have d: "drop ?i field = dropWhile plain field"
    unfolding i by (rule dropWhile_eq_drop[symmetric])
  have unf: "writeQuoted sw field =
     (case wWriteString sw (takeWhile plain field) of
        (Some e, sw1) \<Rightarrow> (Some e, sw1)
      | (None, sw1) \<Rightarrow>
          if dropWhile plain field \<noteq> [] then
            (case writeSpecial sw1 (dropWhile plain field ! 0) of
               (Some e, sw2) \<Rightarrow> (Some e, sw2)
             | (None, sw2) \<Rightarrow> writeQuoted sw2 (drop 1 (dropWhile plain field)))
          else writeQuoted sw1 (dropWhile plain field))"
    apply (subst writeQuoted.simps)
    apply (simp only: Let_def t d)
    apply (simp only: assms length_greater_0_conv not_False_eq_True if_True)
    done
  obtain r1 sw1 where w1: "wWriteString sw (takeWhile plain field) = (r1, sw1)"
    by (cases "wWriteString sw (takeWhile plain field)") auto
  show ?thesis
  proof (cases "dropWhile plain field")
    case Nil
    show ?thesis unfolding unf w1 Nil
      by (cases r1) (simp_all add: writeQuoted_Nil)
  next
    case (Cons c rest)
    have d1: "drop 1 (c # rest) = rest" by simp
    show ?thesis unfolding unf w1 Cons d1
      by (cases r1) simp_all
  qed
qed

lemma concat_escape_split:
  "concat (map (escapeByte crlf) field) =
     takeWhile plain field @ concat (map (escapeByte crlf) (dropWhile plain field))"
proof -
  have "concat (map (escapeByte crlf) (takeWhile plain field @ dropWhile plain field)) =
        concat (map (escapeByte crlf) (takeWhile plain field))
        @ concat (map (escapeByte crlf) (dropWhile plain field))"
    by (simp only: map_append concat_append)
  moreover have "concat (map (escapeByte crlf) (takeWhile plain field)) = takeWhile plain field"
    by (rule concat_escape_plain) (auto dest: set_takeWhileD)
  ultimately show ?thesis by simp
qed

lemma writeQuoted_post:
  "writeQuoted sw field = (r, sw') \<Longrightarrow>
     wpost sw (concat (map (escapeByte (UseCRLF sw)) field)) r sw'"
proof (induction field arbitrary: sw r sw' rule: length_induct)
  case (1 field)
  show ?case
  proof (cases "field = []")
    case True
    with "1.prems" show ?thesis by (simp add: writeQuoted_Nil wpost_refl)
  next
    case False
    obtain r1 sw1 where w1: "wWriteString sw (takeWhile plain field) = (r1, sw1)"
      by (cases "wWriteString sw (takeWhile plain field)") auto
    note p1 = wWriteString_post[OF w1]
    note eq = "1.prems"(1)[unfolded writeQuoted_Cons[OF False, of sw] w1]
    show ?thesis
    proof (cases r1)
      case (Some e)
      from eq[unfolded Some] have "r = Some e" "sw' = sw1"
        by simp_all
      then show ?thesis using wpost_Some[OF p1[unfolded Some]] by simp
    next
      case None
      show ?thesis
      proof (cases "dropWhile plain field")
        case Nil
        from eq[unfolded None Nil] have "r = None" "sw' = sw1"
          by simp_all
        moreover have "concat (map (escapeByte (UseCRLF sw)) field) = takeWhile plain field"
          using concat_escape_split[of "UseCRLF sw" field, unfolded Nil] by simp
        ultimately show ?thesis using p1[unfolded None] by simp
      next
        case (Cons c rest)
        then have c: "\<not> plain c"
          using hd_dropWhile[of plain field] by auto
        have len: "length rest < length field"
          using length_dropWhile_le[of plain field] Cons by simp
        from p1 have crlf1: "UseCRLF sw1 = UseCRLF sw"
          by (simp add: wpost_def)
        obtain r2 sw2 where w2: "writeSpecial sw1 c = (r2, sw2)"
          by (cases "writeSpecial sw1 c") auto
        note p2 = writeSpecial_post[OF w2 c]
        show ?thesis
        proof (cases r2)
          case (Some e)
          from eq[unfolded None Cons] w2 Some have "r = Some e" "sw' = sw2"
            by simp_all
          then show ?thesis
            using wpost_Some[OF wpost_trans[OF p1[unfolded None] p2[unfolded Some]]] by simp
        next
          case r2: None
          from eq[unfolded None Cons] w2 r2 have rec: "writeQuoted sw2 rest = (r, sw')"
            by simp
          from p2 have crlf2: "UseCRLF sw2 = UseCRLF sw1"
            by (simp add: wpost_def)
          from "1.IH" len rec
          have p3: "wpost sw2 (concat (map (escapeByte (UseCRLF sw2)) rest)) r sw'"
            by blast
          have "wpost sw (takeWhile plain field @ escapeByte (UseCRLF sw1) c
                  @ concat (map (escapeByte (UseCRLF sw2)) rest)) r sw'"
            by (rule wpost_trans[OF p1[unfolded None] wpost_trans[OF p2[unfolded r2] p3]])
          then have "wpost sw (takeWhile plain field @ escapeByte (UseCRLF sw) c
                  @ concat (map (escapeByte (UseCRLF sw)) rest)) r sw'"
            by (simp only: crlf1 crlf2)
          moreover have "concat (map (escapeByte (UseCRLF sw)) field) =
              takeWhile plain field @ escapeByte (UseCRLF sw) c
              @ concat (map (escapeByte (UseCRLF sw)) rest)"
            using concat_escape_split[of "UseCRLF sw" field, unfolded Cons] by simp
          ultimately show ?thesis by simp
        qed
      qed
    qed
  qed
qed

section \<open>A record write\<close>

lemma wpost_cfg:
  "wpost sw s r sw' \<Longrightarrow> Comma sw' = Comma sw \<and> UseCRLF sw' = UseCRLF sw \<and> opts sw' = opts sw"
  by (simp add: wpost_def)

lemma writeQuotedField_post:
  assumes "wWriteByte sw DQUOTE = (r1, sw1)"
  shows "(case r1 of Some e \<Rightarrow> (Some e, sw1)
          | None \<Rightarrow>
            (case writeQuoted sw1 field of
               (Some e, sw2) \<Rightarrow> (Some e, sw2)
             | (None, sw2) \<Rightarrow> wWriteByte sw2 DQUOTE)) = (r, sw')
         \<Longrightarrow> wpost sw (quotedField (UseCRLF sw) field) r sw'"
proof -
  note p1 = wWriteByte_post[OF assms]
  assume a: "(case r1 of Some e \<Rightarrow> (Some e, sw1)
          | None \<Rightarrow>
            (case writeQuoted sw1 field of
               (Some e, sw2) \<Rightarrow> (Some e, sw2)
             | (None, sw2) \<Rightarrow> wWriteByte sw2 DQUOTE)) = (r, sw')"
  show ?thesis
  proof (cases r1)
    case (Some e)
    with a have "r = Some e" "sw' = sw1" by simp_all
    then show ?thesis using wpost_Some[OF p1[unfolded Some]] by simp
  next
    case None
    note q1 = p1[unfolded None]
    obtain r2 sw2 where w2: "writeQuoted sw1 field = (r2, sw2)"
      by (cases "writeQuoted sw1 field") auto
    from wpost_cfg[OF q1] writeQuoted_post[OF w2]
    have p2: "wpost sw1 (concat (map (escapeByte (UseCRLF sw)) field)) r2 sw2" by simp
    show ?thesis
    proof (cases r2)
      case (Some e)
      with a None w2 have "r = Some e" "sw' = sw2" by simp_all
      then show ?thesis
        using wpost_Some[OF wpost_trans[OF q1 p2[unfolded Some]]] by simp
    next
      case r2: None
      with a None w2 have w3: "wWriteByte sw2 DQUOTE = (r, sw')" by simp
      from wpost_trans[OF q1 wpost_trans[OF p2[unfolded r2] wWriteByte_post[OF w3]]]
      show ?thesis by (simp add: quotedField_def)
    qed
  qed
qed

lemma writeField_post:
  "writeField sw n field0 = (r, sw') \<Longrightarrow>
     wpost sw ((if n > 0 then EncodeRune (Comma sw) else []) @ encodeField sw field0) r sw'"
proof -
  assume a: "writeField sw n field0 = (r, sw')"
  obtain r0 sw0 where w0: "(if n > 0 then wWriteRune sw (Comma sw) else (None, sw)) = (r0, sw0)"
    by (cases "if n > 0 then wWriteRune sw (Comma sw) else (None, sw)") auto
  have p0: "wpost sw (if n > 0 then EncodeRune (Comma sw) else []) r0 sw0"
    using w0 by (auto split: if_splits dest: wWriteRune_post simp: wpost_refl)
  show ?thesis
  proof (cases r0)
    case (Some e)
    with a w0 have "r = Some e" "sw' = sw0" by (simp_all add: writeField_def)
    then show ?thesis using wpost_Some[OF p0[unfolded Some]] by simp
  next
    case None
    note q0 = p0[unfolded None]
    note cfg = wpost_cfg[OF q0]
    let ?field = "sanitize (opts sw) field0"
    have nq: "fieldNeedsQuotes sw0 ?field = fieldNeedsQuotes sw ?field"
      using cfg fieldNeedsQuotes_cong[of sw0 sw ?field] by simp
    show ?thesis
    proof (cases "fieldNeedsQuotes sw ?field")
      case False
      with a w0 None cfg nq have "wWriteString sw0 ?field = (r, sw')"
        by (simp add: writeField_def Let_def)
      from wpost_trans[OF q0 wWriteString_post[OF this]] False show ?thesis
        by (simp add: encodeField_def Let_def)
    next
      case True
      obtain r1 sw1 where w1: "wWriteByte sw0 DQUOTE = (r1, sw1)"
        by (cases "wWriteByte sw0 DQUOTE") auto
      have "writeField sw n field0 = (case r1 of Some e \<Rightarrow> (Some e, sw1)
          | None \<Rightarrow>
            (case writeQuoted sw1 ?field of
               (Some e, sw2) \<Rightarrow> (Some e, sw2)
             | (None, sw2) \<Rightarrow> wWriteByte sw2 DQUOTE))"
        using w0 None cfg nq True w1
        by (cases r1) (simp_all add: writeField_def Let_def)
      with a have "(case r1 of Some e \<Rightarrow> (Some e, sw1)
          | None \<Rightarrow>
            (case writeQuoted sw1 ?field of
               (Some e, sw2) \<Rightarrow> (Some e, sw2)
             | (None, sw2) \<Rightarrow> wWriteByte sw2 DQUOTE)) = (r, sw')"
        by (simp only:)
      from wpost_trans[OF q0 writeQuotedField_post[OF w1 this]] True cfg show ?thesis
        by (simp add: encodeField_def Let_def)
    qed
  qed
qed

lemma encodeFields_cong:
  "Comma sw' = Comma sw \<Longrightarrow> UseCRLF sw' = UseCRLF sw \<Longrightarrow> opts sw' = opts sw \<Longrightarrow>
     encodeFields sw' n fs = encodeFields sw n fs"
proof -
  assume a: "Comma sw' = Comma sw" "UseCRLF sw' = UseCRLF sw" "opts sw' = opts sw"
  have f: "encodeField sw' g = encodeField sw g" for g
    using a fieldNeedsQuotes_cong[of sw' sw "sanitize (opts sw) g"]
    by (simp add: encodeField_def Let_def)
  show ?thesis
    by (induction fs arbitrary: n) (simp_all add: f a)
qed

lemma writeFields_post:
  "writeFields sw n fs = (r, sw') \<Longrightarrow> wpost sw (encodeFields sw n fs) r sw'"
proof (induction fs arbitrary: sw n)
  case Nil
  then show ?case by (simp add: wpost_refl)
next
  case (Cons f fs)
  obtain r1 sw1 where w1: "writeField sw n f = (r1, sw1)"
    by (cases "writeField sw n f") auto
  note p1 = writeField_post[OF w1]
  show ?case
  proof (cases r1)
    case (Some e)
    with Cons.prems w1 have "r = Some e" "sw' = sw1" by simp_all
    then show ?thesis using wpost_Some[OF p1[unfolded Some]] by simp
  next
    case None
    note q1 = p1[unfolded None]
    from Cons.prems w1 None have rec: "writeFields sw1 (Suc n) fs = (r, sw')" by simp
    from Cons.IH[OF rec]
    have "wpost sw1 (encodeFields sw1 (Suc n) fs) r sw'" .
    then have "wpost sw1 (encodeFields sw (Suc n) fs) r sw'"
      using wpost_cfg[OF q1] encodeFields_cong[of sw1 sw "Suc n" fs] by simp
    from wpost_trans[OF q1 this] show ?thesis by simp
  qed
qed

lemma Write_invalid: "\<not> validDelim (Comma sw) \<Longrightarrow> Write sw record = (Some errInvalidDelim, sw)"
  by (simp add: Write_def)

lemma Write_post:
  "Write sw record = (r, sw') \<Longrightarrow> validDelim (Comma sw) \<Longrightarrow>
     wpost sw (encodeRecord sw record) r sw'"
proof -
  assume a: "Write sw record = (r, sw')" and v: "validDelim (Comma sw)"
  obtain r1 sw1 where w1: "writeFields sw 0 record = (r1, sw1)"
    by (cases "writeFields sw 0 record") auto
  note p1 = writeFields_post[OF w1]
  show ?thesis
  proof (cases r1)
    case (Some e)
    with a v w1 have "r = Some e" "sw' = sw1" by (simp_all add: Write_def)
    then show ?thesis using wpost_Some[OF p1[unfolded Some]] by simp
  next
    case None
    note q1 = p1[unfolded None]
    from a v w1 None
    have "(if UseCRLF sw1 then wWriteString sw1 [CR, LF] else wWriteByte sw1 LF) = (r, sw')"
      by (simp add: Write_def)
    then have "wpost sw1 (lineEnd (UseCRLF sw1)) r sw'"
      by (auto simp: lineEnd_def split: if_splits dest: wWriteString_post wWriteByte_post)
    from wpost_trans[OF q1 this] wpost_cfg[OF q1] show ?thesis
      by (simp add: encodeRecord_def)
  qed
qed

lemma wpost_written: "wpost sw s None sw' \<Longrightarrow> written sw' = written sw @ s"
  by (simp add: wpost_def)

lemma wpost_ideal:
  "wpost sw s r sw' \<Longrightarrow> err (sw_w sw) = None \<Longrightarrow> room (wr (sw_w sw)) = None \<Longrightarrow> r = None"
  by (simp add: wpost_def)

lemma wpost_latched: "wpost sw s (Some e) sw' \<Longrightarrow> err (sw_w sw') = Some e"
  by (simp add: wpost_def)

lemma Error_eq: "Error sw = (err (sw_w sw), sw)"
  by (simp add: Error_def bufio_Write_nil)

lemma Write_error_latched:
  "validDelim (Comma sw) \<Longrightarrow> Write sw rcd = (Some e, sw') \<Longrightarrow> fst (Error sw') = Some e"
  using Write_post[of sw rcd "Some e" sw'] by (simp add: Error_eq wpost_def)

lemma writeField_quoted:
  assumes "fieldNeedsQuotes sw (sanitize (opts sw) field)"
  shows "fst (writeField sw n field) = None \<Longrightarrow>
           written (snd (writeField sw n field)) =
             written sw @ (if n > 0 then EncodeRune (Comma sw) else []) @ [DQUOTE]
             @ concat (map (escapeByte (UseCRLF sw)) (sanitize (opts sw) field)) @ [DQUOTE]"
    and "err (sw_w sw) = None \<Longrightarrow> room (wr (sw_w sw)) = None \<Longrightarrow>
           fst (writeField sw n field) = None"
proof -
  obtain r sw' where w: "writeField sw n field = (r, sw')" by (cases "writeField sw n field") auto
  note p = writeField_post[OF w]
  have e: "encodeField sw field =
      [DQUOTE] @ concat (map (escapeByte (UseCRLF sw)) (sanitize (opts sw) field)) @ [DQUOTE]"
    using assms by (simp add: encodeField_def quotedField_def)
  show "fst (writeField sw n field) = None \<Longrightarrow>
           written (snd (writeField sw n field)) =
             written sw @ (if n > 0 then EncodeRune (Comma sw) else []) @ [DQUOTE]
             @ concat (map (escapeByte (UseCRLF sw)) (sanitize (opts sw) field)) @ [DQUOTE]"
    using p wpost_written[of sw _ sw'] unfolding e by (auto simp: w)
  show "err (sw_w sw) = None \<Longrightarrow> room (wr (sw_w sw)) = None \<Longrightarrow>
           fst (writeField sw n field) = None"
    using wpost_ideal[OF p] by (simp add: w)
qed

lemma comma_char: "char_of (44::int) = CHR '',''"
  by (simp add: char_of_def)

section \<open>UTF-8: decoding, encoding and search\<close>



















































section \<open>The field sanitizer\<close>

text \<open>
  C5. Sanitization is a function of the options and the field alone. It prepends one
  space exactly when the field is not empty and its first byte is \<open>=\<close>, \<open>+\<close>,
  \<open>-\<close>, \<open>@\<close>, tab or line feed with the matching option set, and returns the field
  as it is otherwise; so the result is the field, or the field with one more byte in
  front; the decision depends on the first byte only; and the option named
  \<open>EscapeCharCR\<close> fires on a leading line feed, not on a leading carriage return.
\<close>

theorem sanitize_first_byte:
  "sanitize os field =
     (if field \<noteq> [] \<and>
         ((EscapeCharEqual os \<and> hd field = CHR ''='') \<or>
          (EscapeCharPlus os \<and> hd field = CHR ''+'') \<or>
          (EscapeCharMinus os \<and> hd field = CHR ''-'') \<or>
          (EscapeCharAt os \<and> hd field = CHR ''@'') \<or>
          (EscapeCharTab os \<and> hd field = TAB) \<or>
          (EscapeCharCR os \<and> hd field = LF))
      then CHR '' '' # field else field)
   \<and> (sanitize os field = field \<or>
        (sanitize os field = CHR '' '' # field \<and> length (sanitize os field) = length field + 1))
   \<and> (sanitize os (c # rest) = c # rest \<longleftrightarrow> sanitize os (c # rest') = c # rest')
   \<and> sanitize (os\<lparr>EscapeCharCR := True\<rparr>) (LF # rest) = CHR '' '' # LF # rest
   \<and> sanitize (noSafety\<lparr>EscapeCharCR := True\<rparr>) (CR # rest) = CR # rest"
  by (cases field) (auto simp: sanitize_def noSafety_def)

text \<open>
  C9. When a switch fires on a non-empty field, the sanitized field starts with a space,
  which is white space, so the quoting decision is to quote it, whatever the delimiter
  and the other options; and what \<open>Write\<close> writes for the field, at any position
  \<open>n\<close> of a record, is (after the delimiter when \<open>n > 0\<close>) a quote, the space, the
  escaped bytes of the original field and a quote. These are the bytes taken when the
  write of the field returns no error, and it returns none when no error is latched and
  the underlying writer has room.
\<close>

theorem sanitized_field_is_quoted:
  assumes "field \<noteq> []" and "sanitize (opts sw) field \<noteq> field"
  shows "fst (DecodeRuneInString (sanitize (opts sw) field)) = 0x20
         \<and> IsSpace 0x20
         \<and> fieldNeedsQuotes sw (sanitize (opts sw) field)
         \<and> (fst (writeField sw n field) = None \<longrightarrow>
              written (snd (writeField sw n field)) =
                written sw @ (if n > 0 then EncodeRune (Comma sw) else [])
                @ [DQUOTE, CHR '' ''] @ concat (map (escapeByte (UseCRLF sw)) field) @ [DQUOTE])
         \<and> (err (sw_w sw) = None \<and> room (wr (sw_w sw)) = None \<longrightarrow>
              fst (writeField sw n field) = None)"
proof -
  have s: "sanitize (opts sw) field = CHR '' '' # field"
    using assms(2) by (auto simp: sanitize_def split: if_splits)
  have d: "fst (DecodeRuneInString (CHR '' '' # field)) = 0x20"
    by (simp add: seqlen_def)
  have sp: "IsSpace 0x20"
    by (simp add: IsSpace_def)
  have q: "fieldNeedsQuotes sw (sanitize (opts sw) field)"
    unfolding s using d sp by (simp add: fieldNeedsQuotes_def)
  have e: "escapeByte (UseCRLF sw) (CHR '' '') = [CHR '' '']"
    by (simp add: escapeByte_def)
  show ?thesis
    using writeField_quoted[OF q, of n] d sp q unfolding s by (simp add: e)
qed

theorem sanitized_field_is_quoted_witness:
  "''=A1'' \<noteq> [] \<and> sanitize (opts (NewSafeWriter builder onlyEqual)) ''=A1'' \<noteq> ''=A1''
   \<and> fieldNeedsQuotes (NewSafeWriter builder onlyEqual) '' =A1''
   \<and> fst (writeField (NewSafeWriter builder onlyEqual) 1 ''=A1'') = None
   \<and> written (snd (writeField (NewSafeWriter builder onlyEqual) 1 ''=A1''))
       = '','' @ [DQUOTE] @ '' =A1'' @ [DQUOTE]"
proof -
  let ?w = "NewSafeWriter builder onlyEqual"
  have h: "sanitize (opts ?w) ''=A1'' = '' =A1''"
    by (simp add: sanitize_def NewSafeWriter_def onlyEqual_def noSafety_def)
  have n: "''=A1'' \<noteq> []" by simp
  have ne: "sanitize (opts ?w) ''=A1'' \<noteq> ''=A1''"
    unfolding h by simp
  have c: "EncodeRune (Comma ?w) = [CHR '','']"
    by (simp add: NewSafeWriter_def EncodeRune_def comma_char)
  from sanitized_field_is_quoted[OF n ne, of 1] h show ?thesis
    unfolding c
    by (simp add: NewSafeWriter_def builder_def written_def emitted_def escapeByte_def)
qed

section \<open>The delimiter\<close>

text \<open>
  C7. A delimiter is accepted exactly when it is not NUL, not a quote, not a carriage
  return, not a line feed, and is a valid code point (in range, not a surrogate half)
  other than the replacement character; \<open>;\<close>, tab and \<open>|\<close> are accepted. With a
  delimiter that is not accepted, \<open>Write\<close> returns \<open>errInvalidDelim\<close> for every
  record and leaves the writer as it was: nothing of the record is written.
\<close>

theorem validDelim_gate:
  "(validDelim r \<longleftrightarrow>
      r \<noteq> 0 \<and> r \<noteq> 0x22 \<and> r \<noteq> 0x0D \<and> r \<noteq> 0x0A \<and>
      0 \<le> r \<and> r \<le> 0x10FFFF \<and> \<not> (0xD800 \<le> r \<and> r \<le> 0xDFFF) \<and> r \<noteq> 0xFFFD)
   \<and> validDelim 0x3B \<and> validDelim 0x09 \<and> validDelim 0x7C
   \<and> (\<not> validDelim (Comma sw) \<longrightarrow> Write sw record = (Some errInvalidDelim, sw))"
  by (auto simp: validDelim_def ValidRune_def MaxRune_def RuneError_def Write_def)

theorem validDelim_gate_witness:
  "\<not> validDelim (Comma ((NewSafeWriter builder noSafety)\<lparr>Comma := 0x22\<rparr>))
   \<and> Write ((NewSafeWriter builder noSafety)\<lparr>Comma := 0x22\<rparr>) [''a'', ''b'']
       = (Some errInvalidDelim, (NewSafeWriter builder noSafety)\<lparr>Comma := 0x22\<rparr>)
   \<and> written ((NewSafeWriter builder noSafety)\<lparr>Comma := 0x22\<rparr>) = []"
  using validDelim_gate[of "0x22" "(NewSafeWriter builder noSafety)\<lparr>Comma := 0x22\<rparr>" "[''a'', ''b'']"]
  by (simp add: NewSafeWriter_def written_def emitted_def builder_def)

section \<open>The quoting decision\<close>








section \<open>Records\<close>

text \<open>
  C10. With a valid delimiter, writing the record with no field writes the line
  terminator and nothing else: a line feed, or a carriage return and a line feed when
  \<open>UseCRLF\<close> is set. If the write returns no error, exactly these bytes were taken;
  and it returns no error when no error is latched and the underlying writer has room.
\<close>

theorem Write_empty_record:
  assumes "validDelim (Comma sw)"
  shows "(fst (Write sw []) = None \<longrightarrow>
            written (snd (Write sw [])) = written sw @ (if UseCRLF sw then [CR, LF] else [LF]))
         \<and> (err (sw_w sw) = None \<and> room (wr (sw_w sw)) = None \<longrightarrow> fst (Write sw []) = None)"
proof -
  obtain r sw' where w: "Write sw [] = (r, sw')" by (cases "Write sw []") auto
  note p = Write_post[OF w assms]
  have e: "encodeRecord sw [] = (if UseCRLF sw then [CR, LF] else [LF])"
    by (simp add: encodeRecord_def lineEnd_def)
  show ?thesis
    using wpost_written[of sw "encodeRecord sw []" sw'] wpost_ideal[OF p] p
    by (auto simp: w e)
qed

theorem Write_empty_record_witness:
  "validDelim (Comma (NewSafeWriter builder FullSafety))
   \<and> fst (Write (NewSafeWriter builder FullSafety) []) = None
   \<and> written (snd (Write (NewSafeWriter builder FullSafety) [])) = [LF]
   \<and> written (snd (Write ((NewSafeWriter builder FullSafety)\<lparr>UseCRLF := True\<rparr>) [])) = [CR, LF]"
proof -
  have v: "validDelim (Comma (NewSafeWriter builder FullSafety))"
    by (simp add: NewSafeWriter_def validDelim_def ValidRune_def MaxRune_def RuneError_def)
  have v': "validDelim (Comma ((NewSafeWriter builder FullSafety)\<lparr>UseCRLF := True\<rparr>))"
    by (simp add: NewSafeWriter_def validDelim_def ValidRune_def MaxRune_def RuneError_def)
  from Write_empty_record[OF v] Write_empty_record[OF v'] v show ?thesis
    by (simp add: NewSafeWriter_def builder_def written_def emitted_def)
qed

text \<open>
  C6. When the decision is to quote the (sanitized) field, what is written for it, at any
  position \<open>n\<close> of a record, is (after the delimiter when \<open>n > 0\<close>) a quote, then for
  each byte of the field in order its escape, then a quote: a quote is doubled; a
  carriage return is dropped when \<open>UseCRLF\<close> is set and kept otherwise; a line feed
  becomes carriage return and line feed when \<open>UseCRLF\<close> is set and is kept otherwise;
  any other byte is copied. This is what was taken when the write of the field returns
  no error, and it returns none when no error is latched and the underlying writer has
  room.
\<close>

theorem quoted_field_bytes:
  assumes "fieldNeedsQuotes sw (sanitize (opts sw) field)"
  shows "(fst (writeField sw n field) = None \<longrightarrow>
            written (snd (writeField sw n field)) =
              written sw @ (if n > 0 then EncodeRune (Comma sw) else []) @ [DQUOTE]
              @ concat (map (escapeByte (UseCRLF sw)) (sanitize (opts sw) field)) @ [DQUOTE])
         \<and> (err (sw_w sw) = None \<and> room (wr (sw_w sw)) = None \<longrightarrow>
              fst (writeField sw n field) = None)
         \<and> escapeByte crlf DQUOTE = [DQUOTE, DQUOTE]
         \<and> escapeByte True CR = [] \<and> escapeByte False CR = [CR]
         \<and> escapeByte True LF = [CR, LF] \<and> escapeByte False LF = [LF]
         \<and> (c \<noteq> DQUOTE \<and> c \<noteq> CR \<and> c \<noteq> LF \<longrightarrow> escapeByte crlf c = [c])"
  using writeField_quoted[OF assms, of n] by (simp add: escapeByte_def)

theorem quoted_field_bytes_witness:
  "fieldNeedsQuotes ((NewSafeWriter builder noSafety)\<lparr>UseCRLF := True\<rparr>)
     (sanitize (opts ((NewSafeWriter builder noSafety)\<lparr>UseCRLF := True\<rparr>))
        [CHR ''a'', DQUOTE, CR, CHR ''b'', LF])
   \<and> fst (writeField ((NewSafeWriter builder noSafety)\<lparr>UseCRLF := True\<rparr>) 1
        [CHR ''a'', DQUOTE, CR, CHR ''b'', LF]) = None
   \<and> written (snd (writeField ((NewSafeWriter builder noSafety)\<lparr>UseCRLF := True\<rparr>) 1
        [CHR ''a'', DQUOTE, CR, CHR ''b'', LF]))
       = [CHR '','', DQUOTE, CHR ''a'', DQUOTE, DQUOTE, CHR ''b'', CR, LF, DQUOTE]
   \<and> written (snd (writeField ((NewSafeWriter builder noSafety)\<lparr>UseCRLF := True\<rparr>) 0
        [CHR ''a'', DQUOTE, CR, CHR ''b'', LF]))
       = [DQUOTE, CHR ''a'', DQUOTE, DQUOTE, CHR ''b'', CR, LF, DQUOTE]"
proof -
  let ?w = "(NewSafeWriter builder noSafety)\<lparr>UseCRLF := True\<rparr>"
  let ?f = "[CHR ''a'', DQUOTE, CR, CHR ''b'', LF]"
  have s: "sanitize (opts ?w) ?f = ?f"
    by (simp add: sanitize_def NewSafeWriter_def noSafety_def)
  have q: "fieldNeedsQuotes ?w (sanitize (opts ?w) ?f)"
    unfolding s by (simp add: fieldNeedsQuotes_def NewSafeWriter_def noSafety_def RuneSelf_def)
  have c: "EncodeRune (Comma ?w) = [CHR '','']"
    by (simp add: NewSafeWriter_def EncodeRune_def comma_char)
  from quoted_field_bytes[OF q, of 1] quoted_field_bytes[OF q, of 0] q show ?thesis
    unfolding s c
    by (simp add: NewSafeWriter_def builder_def written_def emitted_def escapeByte_def)
qed

text \<open>
  C1 (as the code has it). With delimiter \<open>,\<close>, line-feed mode and \<open>EscapeCharEqual\<close>
  alone, writing \<open>["userId", "=A1", "foo, bar"]\<close> returns no error and produces the line
  \<open>userId," =A1","foo, bar"\<close> and a line feed: the sanitized second field starts with
  a space, so it is quoted. After \<open>Flush\<close> the underlying writer holds exactly this line.
\<close>

theorem example_record_output:
  "fst (Write (NewSafeWriter builder onlyEqual) [''userId'', ''=A1'', ''foo, bar'']) = None
   \<and> written (snd (Write (NewSafeWriter builder onlyEqual) [''userId'', ''=A1'', ''foo, bar'']))
       = ''userId,'' @ [DQUOTE] @ '' =A1'' @ [DQUOTE] @ '','' @ [DQUOTE] @ ''foo, bar''
         @ [DQUOTE, LF]
   \<and> sunk (wr (sw_w (Flush (snd (Write (NewSafeWriter builder onlyEqual)
                                    [''userId'', ''=A1'', ''foo, bar''])))))
       = ''userId,'' @ [DQUOTE] @ '' =A1'' @ [DQUOTE] @ '','' @ [DQUOTE] @ ''foo, bar''
         @ [DQUOTE, LF]"
  by code_simp

text \<open>
  The output of that write is not the line \<open>userId, =A1,"foo, bar"\<close> with the second
  field unquoted.
\<close>

theorem example_record_output_counterexample:
  "written (snd (Write (NewSafeWriter builder onlyEqual) [''userId'', ''=A1'', ''foo, bar'']))
   \<noteq> ''userId, =A1,'' @ [DQUOTE] @ ''foo, bar'' @ [DQUOTE, LF]"
  by code_simp

section \<open>Errors\<close>

text \<open>
  C3. An error that comes out of the buffered writer during \<open>Write\<close> is latched (lemma
  \<open>Write_error_latched\<close>), but the error for an invalid delimiter is not: with the
  delimiter \<open>"\<close>, \<open>Write\<close> returns \<open>errInvalidDelim\<close> and \<open>Error\<close> called
  afterwards returns no error.
\<close>

theorem invalid_delimiter_not_latched:
  "fst (Write ((NewSafeWriter builder noSafety)\<lparr>Comma := 0x22\<rparr>) [''a'', ''b''])
     = Some errInvalidDelim
   \<and> fst (Error (snd (Write ((NewSafeWriter builder noSafety)\<lparr>Comma := 0x22\<rparr>)
                          [''a'', ''b'']))) = None"
  by code_simp

section \<open>Batches\<close>

lemma stateAfter_0: "stateAfter sw records 0 = sw"
  by (simp add: stateAfter_def)

lemma stateAfter_Suc:
  "stateAfter sw (record # records) (Suc k) = stateAfter (snd (Write sw record)) records k"
  by (simp add: stateAfter_def)

lemma WriteAll_Cons_None:
  "fst (Write sw record) = None \<Longrightarrow>
     WriteAll sw (record # records) = WriteAll (snd (Write sw record)) records"
  by (cases "Write sw record") auto

lemma WriteAll_Cons_Some:
  "fst (Write sw record) = Some e \<Longrightarrow>
     WriteAll sw (record # records) = (Some e, snd (Write sw record))"
  by (cases "Write sw record") auto

lemma WriteAll_all_ok:
  "\<forall>k<length records. fst (Write (stateAfter sw records k) (records ! k)) = None \<Longrightarrow>
     WriteAll sw records =
       (fst (bufio_Flush (sw_w (stateAfter sw records (length records)))),
        (stateAfter sw records (length records))
          \<lparr>sw_w := snd (bufio_Flush (sw_w (stateAfter sw records (length records))))\<rparr>)"
proof (induction records arbitrary: sw)
  case Nil
  show ?case by (simp add: stateAfter_0 split: prod.splits)
next
  case (Cons rcd records)
  from Cons.prems have h0: "fst (Write sw rcd) = None"
    by (auto simp: stateAfter_0 dest: spec[of _ 0])
  have "\<forall>k<length records.
          fst (Write (stateAfter (snd (Write sw rcd)) records k) (records ! k)) = None"
  proof (intro allI impI)
    fix k assume "k < length records"
    with Cons.prems have "fst (Write (stateAfter sw (rcd # records) (Suc k))
                                  ((rcd # records) ! Suc k)) = None"
      by (auto dest: spec[of _ "Suc k"])
    then show "fst (Write (stateAfter (snd (Write sw rcd)) records k) (records ! k)) = None"
      by (simp add: stateAfter_Suc)
  qed
  from Cons.IH[OF this] show ?case
    unfolding WriteAll_Cons_None[OF h0] by (simp add: stateAfter_Suc)
qed

lemma WriteAll_first_error:
  "k < length records \<Longrightarrow>
   \<forall>j<k. fst (Write (stateAfter sw records j) (records ! j)) = None \<Longrightarrow>
   fst (Write (stateAfter sw records k) (records ! k)) = Some e \<Longrightarrow>
     WriteAll sw records = (Some e, snd (Write (stateAfter sw records k) (records ! k)))"
proof (induction records arbitrary: sw k)
  case Nil
  then show ?case by simp
next
  case (Cons rcd records)
  show ?case
  proof (cases k)
    case 0
    with Cons.prems(3) have "fst (Write sw rcd) = Some e"
      by (simp add: stateAfter_0)
    from WriteAll_Cons_Some[OF this] 0 show ?thesis
      by (simp add: stateAfter_0 del: WriteAll.simps)
  next
    case (Suc k')
    from Cons.prems(2) Suc have h0: "fst (Write sw rcd) = None"
      by (auto simp: stateAfter_0 dest: spec[of _ 0])
    have a: "k' < length records" using Cons.prems(1) Suc by simp
    have b: "\<forall>j<k'. fst (Write (stateAfter (snd (Write sw rcd)) records j) (records ! j)) = None"
    proof (intro allI impI)
      fix j assume "j < k'"
      with Cons.prems(2) Suc have "fst (Write (stateAfter sw (rcd # records) (Suc j))
                                  ((rcd # records) ! Suc j)) = None"
        by (auto dest: spec[of _ "Suc j"])
      then show "fst (Write (stateAfter (snd (Write sw rcd)) records j) (records ! j)) = None"
        by (simp add: stateAfter_Suc)
    qed
    have c: "fst (Write (stateAfter (snd (Write sw rcd)) records k') (records ! k')) = Some e"
      using Cons.prems(3) Suc by (simp add: stateAfter_Suc)
    from Cons.IH[OF a b c] show ?thesis
      unfolding WriteAll_Cons_None[OF h0] by (simp add: Suc stateAfter_Suc)
  qed
qed

text \<open>
  C8. \<open>WriteAll\<close> writes the records in order with \<open>Write\<close>. If every record is
  written without error, it flushes the buffered writer and returns what the flush
  returns. If record \<open>k\<close> is the first whose write returns an error, it returns that
  error, and the writer is as that write left it: no later record is written and nothing
  is flushed.
\<close>

theorem WriteAll_fail_fast:
  "((\<forall>k<length records. fst (Write (stateAfter sw records k) (records ! k)) = None) \<longrightarrow>
      WriteAll sw records =
        (fst (bufio_Flush (sw_w (stateAfter sw records (length records)))),
         (stateAfter sw records (length records))
           \<lparr>sw_w := snd (bufio_Flush (sw_w (stateAfter sw records (length records))))\<rparr>))
   \<and> (k < length records
        \<and> (\<forall>j<k. fst (Write (stateAfter sw records j) (records ! j)) = None)
        \<and> fst (Write (stateAfter sw records k) (records ! k)) = Some e \<longrightarrow>
      WriteAll sw records = (Some e, snd (Write (stateAfter sw records k) (records ! k))))"
  using WriteAll_all_ok[of records sw] WriteAll_first_error[of k records sw e] by blast

lemma fullSink_write_ok: "fst (Write (NewSafeWriter fullSink noSafety) [''a'']) = None"
  by code_simp

lemma fullSink_flush_fails:
  "fst (bufio_Flush (sw_w (snd (Write (NewSafeWriter fullSink noSafety) [''a''])))) = Some errSink"
  by code_simp

lemma nul_delimiter_write:
  "fst (Write ((NewSafeWriter builder noSafety)\<lparr>Comma := 0\<rparr>) [''a'']) = Some errInvalidDelim"
  by code_simp

theorem WriteAll_fail_fast_witness:
  "fst (Write (NewSafeWriter fullSink noSafety) [''a'']) = None
   \<and> fst (WriteAll (NewSafeWriter fullSink noSafety) [[''a'']]) = Some errSink
   \<and> fst (Write ((NewSafeWriter builder noSafety)\<lparr>Comma := 0\<rparr>) [''a'']) = Some errInvalidDelim
   \<and> WriteAll ((NewSafeWriter builder noSafety)\<lparr>Comma := 0\<rparr>) [[''a''], [''b'']]
       = (Some errInvalidDelim, (NewSafeWriter builder noSafety)\<lparr>Comma := 0\<rparr>)"
proof -
  let ?w = "NewSafeWriter fullSink noSafety"
  let ?v = "(NewSafeWriter builder noSafety)\<lparr>Comma := 0\<rparr>"
  have h1: "\<forall>k<length [[''a'']]. fst (Write (stateAfter ?w [[''a'']] k) ([[''a'']] ! k)) = None"
    using fullSink_write_ok by (simp add: stateAfter_def)
  have h2: "(0::nat) < length [[''a''], [''b'']]
        \<and> (\<forall>j<0. fst (Write (stateAfter ?v [[''a''], [''b'']] j) ([[''a''], [''b'']] ! j)) = None)
        \<and> fst (Write (stateAfter ?v [[''a''], [''b'']] 0) ([[''a''], [''b'']] ! 0)) = Some errInvalidDelim"
    using nul_delimiter_write by (simp add: stateAfter_def)
  have i: "\<not> validDelim (Comma ?v)" by (simp add: validDelim_def)
  from WriteAll_fail_fast[of "[[''a'']]" ?w 0 errSink] h1
  have r1: "fst (WriteAll ?w [[''a'']]) = Some errSink"
    using fullSink_flush_fails by (simp add: stateAfter_def del: WriteAll.simps)
  from WriteAll_fail_fast[of "[[''a''], [''b'']]" ?v 0 errInvalidDelim] h2
  have r2: "WriteAll ?v [[''a''], [''b'']] = (Some errInvalidDelim, ?v)"
    using Write_invalid[OF i] by (simp add: stateAfter_def del: WriteAll.simps)
  from fullSink_write_ok nul_delimiter_write r1 r2 show ?thesis by (simp del: WriteAll.simps)
qed

section \<open>The round trip of a field\<close>



















end
